theory Spec2Isabelle
  imports Main "HOL-Library.AList" "HOL-Library.Sublist"
begin

section \<open>The authorized transport of package aps\<close>

text \<open>
  The transport keeps a pointer to the token in use, refreshes it through a fetcher
  when it is missing or expired, and sends a copy of each request with the
  \<open>Authorization\<close> header set. Pointers matter here (\<open>Token()\<close> hands out a copy,
  \<open>cloneRequest\<close> copies a struct and a map but not the value lists), so the model
  keeps an explicit store: every Go object lives in a list and its address is its
  index; a pointer is a \<open>nat option\<close>, \<open>None\<close> being \<open>nil\<close>.
\<close>

subsection \<open>Values\<close>

text \<open>
  A \<open>time.Time\<close> is the instant it denotes, counted from Go's zero time
  (January 1, year 1, 00:00:00 UTC): \<open>IsZero\<close> holds of that instant only and
  \<open>Before\<close> compares instants.
\<close>

type_synonym time = int

definition IsZero :: "time \<Rightarrow> bool" where
  "IsZero t = (t = 0)"

definition Before :: "time \<Rightarrow> time \<Rightarrow> bool" where
  "Before t u = (t < u)"

text \<open>The four fields of \<open>oauth2.Token\<close> that the transport reads and copies.\<close>

record oauth2_Token =
  AccessToken :: string
  TokenType :: string
  RefreshToken :: string
  Expiry :: time

text \<open>
  A slice header: the backing array it points into (\<open>None\<close> for a nil slice), where
  it starts there, its length and its capacity.
\<close>

record slice =
  array :: "nat option"
  offset :: nat
  len :: nat
  cap :: nat

text \<open>
  An \<open>http.Request\<close>: the \<open>Header\<close> field is a reference to a map (\<open>None\<close> for a
  nil map); all the other fields are carried as one value, which a struct assignment
  copies as it is.
\<close>

record 'a http_Request =
  Header :: "nat option"
  others :: 'a

text \<open>A Go run-time panic.\<close>

datatype panic = NilDereference | NilMapAssignment

definition defaultTokenType :: string where
  "defaultTokenType = ''Bearer''"

subsection \<open>The store\<close>

text \<open>
  \<open>token\<close> is the field of the \<open>authorizedTransport\<close>; \<open>tokens\<close>, \<open>requests\<close>,
  \<open>headers\<close> and \<open>arrays\<close> are the allocated token structs, request structs,
  header maps and backing arrays of string slices. A header map is an association
  list from keys to slice headers. \<open>fetched\<close> and \<open>sent\<close> record the calls made to
  the two collaborators: the token handed to each \<open>FetchToken\<close> call, and the
  request handed to each \<open>DefaultTransport.RoundTrip\<close> call.

  The read/write mutex of the transport is taken and released inside each of
  \<open>Token\<close>, \<open>SetToken\<close> and \<open>RefreshToken\<close>; this model runs one call at a time
  and leaves it out.
\<close>

record 'a world =
  token :: "nat option"
  tokens :: "oauth2_Token list"
  requests :: "'a http_Request list"
  headers :: "(string \<times> slice) list list"
  arrays :: "string list list"
  fetched :: "oauth2_Token option list"
  sent :: "nat list"

text \<open>What a token pointer points at; \<open>None\<close> for \<open>nil\<close>.\<close>

definition load :: "'a world \<Rightarrow> nat option \<Rightarrow> oauth2_Token option" where
  "load s p = (case p of None \<Rightarrow> None
     | Some a \<Rightarrow> if a < length (tokens s) then Some (tokens s ! a) else None)"

subsection \<open>Expired\<close>

text \<open>
  \<open>Expired\<close> reads \<open>t.AccessToken\<close> first, with no nil check: on a nil pointer that
  is a nil dereference. \<open>now\<close> is the value of \<open>time.Now()\<close>.
\<close>

fun Expired :: "time \<Rightarrow> oauth2_Token option \<Rightarrow> panic + bool" where
  "Expired now None = Inl NilDereference"
| "Expired now (Some t) =
     (if AccessToken t = [] then Inr True
      else if IsZero (Expiry t) then Inr False
      else Inr (Before (Expiry t) now))"

subsection \<open>Token, SetToken, RefreshToken\<close>

text \<open>
  \<open>Token\<close> returns \<open>nil\<close> when no token is stored, and otherwise a pointer to a
  newly allocated struct with the four fields of the stored one.
\<close>

definition Token :: "'a world \<Rightarrow> nat option \<times> 'a world" where
  "Token s =
     (case token s of
        None \<Rightarrow> (None, s)
      | Some a \<Rightarrow>
          (Some (length (tokens s)),
           s\<lparr>tokens := tokens s @
              [\<lparr>AccessToken = AccessToken (tokens s ! a),
                TokenType = TokenType (tokens s ! a),
                RefreshToken = RefreshToken (tokens s ! a),
                Expiry = Expiry (tokens s ! a)\<rparr>]\<rparr>))"

definition SetToken :: "'a world \<Rightarrow> nat option \<Rightarrow> 'a world" where
  "SetToken s p = s\<lparr>token := p\<rparr>"

text \<open>
  The fetcher is the caller's. \<open>FetchToken\<close> is handed the stored pointer itself,
  not a copy, so it can read and write the token objects; it returns a token
  pointer and an error, either of which may be nil. It is taken as a function of the
  token objects and the pointer it is given, to the pointer and error it returns
  and the token objects as it leaves them (it may have written to some and
  allocated others). \<open>RefreshToken\<close> returns the error when there is one and
  assigns nothing; otherwise it assigns the returned pointer to \<open>t.token\<close>, nil
  included.
\<close>

definition RefreshToken ::
  "(oauth2_Token list \<Rightarrow> nat option \<Rightarrow> (nat option \<times> 'e option) \<times> oauth2_Token list)
     \<Rightarrow> 'a world \<Rightarrow> 'e option \<times> 'a world" where
  "RefreshToken fetcher s =
     (let s1 = s\<lparr>fetched := fetched s @ [load s (token s)]\<rparr>
      in case fetcher (tokens s1) (token s1) of
           ((tok, err), h) \<Rightarrow>
             (let s2 = s1\<lparr>tokens := h\<rparr>
              in case err of
                   Some e \<Rightarrow> (Some e, s2)
                 | None \<Rightarrow> (None, s2\<lparr>token := tok\<rparr>)))"

subsection \<open>cloneRequest\<close>

text \<open>\<open>m[k] = v\<close> on the map at address \<open>m\<close>.\<close>

definition map_assign :: "'a world \<Rightarrow> nat \<Rightarrow> string \<Rightarrow> slice \<Rightarrow> 'a world" where
  "map_assign s m k v = s\<lparr>headers := (headers s)[m := AList.update k v (headers s ! m)]\<rparr>"

text \<open>
  \<open>cloneRequest\<close> dereferences \<open>r\<close> (a nil \<open>r\<close> panics), allocates a request struct
  and assigns \<open>*r\<close> to it, allocates a new map for its \<open>Header\<close>, and assigns to that
  map, for every key of \<open>r.Header\<close>, the slice header \<open>s\<close> found there: the slice
  header is copied, the backing array is not. Ranging over a nil map runs no
  iteration. \<open>range\<close> visits the keys in no fixed order; the model visits them in
  the order of the association list.
\<close>

definition cloneRequest :: "'a world \<Rightarrow> nat option \<Rightarrow> panic + nat \<times> 'a world" where
  "cloneRequest s r =
     (case r of
        None \<Rightarrow> Inl NilDereference
      | Some a \<Rightarrow>
          (let r2 = length (requests s);
               m = length (headers s);
               s1 = s\<lparr>requests := requests s @ [requests s ! a]\<rparr>;
               s2 = s1\<lparr>headers := headers s1 @ [[]],
                       requests := (requests s1)[r2 := (requests s1 ! r2)\<lparr>Header := Some m\<rparr>]\<rparr>;
               entries = (case Header (requests s2 ! a) of None \<Rightarrow> [] | Some h \<Rightarrow> headers s2 ! h)
           in Inr (r2, fold (\<lambda>(k, v) w. map_assign w m k v) entries s2)))"

text \<open>
  \<open>Header.Set(key, value)\<close> of net/http assigns a new one-element slice to the
  canonical form of the key; the transport calls it with \<open>Authorization\<close>, which is
  its own canonical form. Assigning to a nil map panics.
\<close>

definition Header_Set :: "'a world \<Rightarrow> nat option \<Rightarrow> string \<Rightarrow> string \<Rightarrow> panic + 'a world" where
  "Header_Set s h key val =
     (case h of
        None \<Rightarrow> Inl NilMapAssignment
      | Some m \<Rightarrow>
          (let a = length (arrays s);
               s1 = s\<lparr>arrays := arrays s @ [[val]]\<rparr>
           in Inr (map_assign s1 m key \<lparr>array = Some a, offset = 0, len = 1, cap = 1\<rparr>)))"

subsection \<open>RoundTrip\<close>

text \<open>
  \<open>DefaultTransport\<close> is declared outside this file; it is a parameter here, a
  function of the store and the request it is given to its response and error. It
  reads and does not write, as \<open>http.RoundTripper\<close> requires of an implementation.
\<close>

text \<open>
  The second half of \<open>RoundTrip\<close> (from \<open>req = cloneRequest(req)\<close> to the end), for
  the token pointer held at that point: clone the request, read the token's type
  and access token (a nil token pointer panics here, after the clone was made), set
  the header on the clone and hand the clone to \<open>DefaultTransport\<close>.
\<close>

definition authorize_and_send ::
  "('a world \<Rightarrow> nat \<Rightarrow> 'r option \<times> 'e option) \<Rightarrow> 'a world \<Rightarrow> nat option \<Rightarrow> nat option
     \<Rightarrow> (panic + 'r option \<times> 'e option) \<times> 'a world" where
  "authorize_and_send DefaultTransport s tokenp req =
     (case cloneRequest s req of
        Inl p \<Rightarrow> (Inl p, s)
      | Inr (req2, s1) \<Rightarrow>
          (case load s1 tokenp of
             None \<Rightarrow> (Inl NilDereference, s1)
           | Some tok \<Rightarrow>
               (let typ = (if TokenType tok = [] then defaultTokenType else TokenType tok)
                in case Header_Set s1 (Header (requests s1 ! req2)) ''Authorization''
                          (typ @ '' '' @ AccessToken tok) of
                     Inl p \<Rightarrow> (Inl p, s1)
                   | Inr s2 \<Rightarrow>
                       (Inr (DefaultTransport s2 req2), s2\<lparr>sent := sent s2 @ [req2]\<rparr>))))"

text \<open>
  \<open>RoundTrip\<close>: read the token; when it is nil or expired (\<open>Expired\<close> is called on a
  non-nil token only), refresh, return \<open>(nil, err)\<close> on an error, and read the token
  again; then authorize and send.
\<close>

definition RoundTrip ::
  "(oauth2_Token list \<Rightarrow> nat option \<Rightarrow> (nat option \<times> 'e option) \<times> oauth2_Token list)
     \<Rightarrow> ('a world \<Rightarrow> nat \<Rightarrow> 'r option \<times> 'e option)
     \<Rightarrow> time \<Rightarrow> 'a world \<Rightarrow> nat option
     \<Rightarrow> (panic + 'r option \<times> 'e option) \<times> 'a world" where
  "RoundTrip fetcher DefaultTransport now s req =
     (let (token0, s1) = Token s in
      case (if token0 = None then Inr True else Expired now (load s1 token0)) of
        Inl p \<Rightarrow> (Inl p, s1)
      | Inr stale \<Rightarrow>
          if stale
          then (case RefreshToken fetcher s1 of
                  (Some err, s2) \<Rightarrow> (Inr (None, Some err), s2)
                | (None, s2) \<Rightarrow>
                    (let (token1, s3) = Token s2
                     in authorize_and_send DefaultTransport s3 token1 req))
          else authorize_and_send DefaultTransport s1 token0 req)"

subsection \<open>What a caller can observe\<close>

text \<open>The elements of a slice.\<close>

definition elems :: "'a world \<Rightarrow> slice \<Rightarrow> string list" where
  "elems s sl =
     (case array sl of
        None \<Rightarrow> []
      | Some a \<Rightarrow> take (len sl) (drop (offset sl) (arrays s ! a)))"

text \<open>\<open>r.Header[k]\<close>: the slice header stored under \<open>k\<close>, and the values read through it.\<close>

definition header_slice :: "'a world \<Rightarrow> nat \<Rightarrow> string \<Rightarrow> slice option" where
  "header_slice s r k =
     (case Header (requests s ! r) of
        None \<Rightarrow> None
      | Some m \<Rightarrow> map_of (headers s ! m) k)"

definition header_values :: "'a world \<Rightarrow> nat \<Rightarrow> string \<Rightarrow> string list option" where
  "header_values s r k = map_option (elems s) (header_slice s r k)"

text \<open>\<open>sl[i] = v\<close>, for an index within the slice's length.\<close>

definition slice_store :: "'a world \<Rightarrow> slice \<Rightarrow> nat \<Rightarrow> string \<Rightarrow> 'a world" where
  "slice_store s sl i v =
     (case array sl of
        None \<Rightarrow> s
      | Some a \<Rightarrow> s\<lparr>arrays := (arrays s)[a := (arrays s ! a)[offset sl + i := v]]\<rparr>)"

text \<open>
  Two slices share storage when some cell of a backing array lies within the
  capacity of both.
\<close>

definition cells :: "slice \<Rightarrow> (nat \<times> nat) set" where
  "cells sl =
     (case array sl of
        None \<Rightarrow> {}
      | Some a \<Rightarrow> (\<lambda>i. (a, i)) ` {offset sl ..< offset sl + cap sl})"

definition shares_storage :: "slice \<Rightarrow> slice \<Rightarrow> bool" where
  "shares_storage sl1 sl2 = (cells sl1 \<inter> cells sl2 \<noteq> {})"

text \<open>\<open>*p = v\<close> on a token pointer: what a caller can do to a token it holds.\<close>

definition token_store :: "'a world \<Rightarrow> nat option \<Rightarrow> oauth2_Token \<Rightarrow> 'a world" where
  "token_store s p v = (case p of None \<Rightarrow> s | Some a \<Rightarrow> s\<lparr>tokens := (tokens s)[a := v]\<rparr>)"

subsection \<open>Well-formed stores\<close>

text \<open>
  Go has no dangling pointers: the stored token pointer is nil or allocated, and a
  request that is given to \<open>RoundTrip\<close> is allocated, its \<open>Header\<close> is nil or an
  allocated map, a map has each key once, and the slices in it are nil or point
  into allocated arrays.
\<close>

definition valid_token :: "'a world \<Rightarrow> bool" where
  "valid_token s = (case token s of None \<Rightarrow> True | Some a \<Rightarrow> a < length (tokens s))"

definition valid_request :: "'a world \<Rightarrow> nat \<Rightarrow> bool" where
  "valid_request s r =
     (r < length (requests s) \<and>
      (case Header (requests s ! r) of
         None \<Rightarrow> True
       | Some m \<Rightarrow>
           m < length (headers s) \<and> distinct (map fst (headers s ! m)) \<and>
           list_all (\<lambda>(k, sl). case array sl of None \<Rightarrow> True | Some a \<Rightarrow> a < length (arrays s))
             (headers s ! m)))"

text \<open>
  The frame of a call: the request structs, header maps and backing arrays that
  existed before are still there, unchanged; new ones may have been allocated.
\<close>

definition grows :: "'a world \<Rightarrow> 'a world \<Rightarrow> bool" where
  "grows s s' =
     (prefix (requests s) (requests s') \<and> prefix (headers s) (headers s') \<and>
      prefix (arrays s) (arrays s'))"

subsection \<open>A sample store\<close>

text \<open>
  A transport holding the token \<open>abc\<close> with no type and no expiry, and one request
  with the header \<open>Accept: text/html\<close>.
\<close>

definition store0 :: "unit world" where
  "store0 =
     \<lparr>token = Some 0,
      tokens = [\<lparr>AccessToken = ''abc'', TokenType = [], RefreshToken = ''r1'', Expiry = 0\<rparr>],
      requests = [\<lparr>Header = Some 0, others = ()\<rparr>],
      headers = [[(''Accept'', \<lparr>array = Some 0, offset = 0, len = 1, cap = 1\<rparr>)]],
      arrays = [[''text/html'']],
      fetched = [],
      sent = []\<rparr>"

text \<open>The same store with a token that expired at instant 50.\<close>

definition store1 :: "unit world" where
  "store1 =
     store0\<lparr>tokens :=
       [\<lparr>AccessToken = ''old'', TokenType = ''Basic'', RefreshToken = ''r1'', Expiry = 50\<rparr>]\<rparr>"

subsection \<open>Sample collaborators\<close>

text \<open>
  Two fetchers and an underlying transport. \<open>renew\<close> allocates a new token and
  returns it. \<open>tamper\<close> overwrites the token it is handed, through the pointer, and
  then fails. \<open>respond\<close> answers every request.
\<close>

definition renew ::
  "oauth2_Token list \<Rightarrow> nat option \<Rightarrow> (nat option \<times> string option) \<times> oauth2_Token list" where
  "renew h p =
     ((Some (length h), None),
      h @ [\<lparr>AccessToken = ''new'', TokenType = ''MAC'', RefreshToken = [], Expiry = 60\<rparr>])"

definition tamper ::
  "oauth2_Token list \<Rightarrow> nat option \<Rightarrow> (nat option \<times> string option) \<times> oauth2_Token list" where
  "tamper h p =
     ((None, Some ''denied''),
      (case p of
         None \<Rightarrow> h
       | Some a \<Rightarrow>
           h[a := \<lparr>AccessToken = ''tampered'', TokenType = [], RefreshToken = [], Expiry = 0\<rparr>]))"

definition respond :: "unit world \<Rightarrow> nat \<Rightarrow> string option \<times> string option" where
  "respond s r = (Some ''response'', None)"

section \<open>Properties\<close>

subsection \<open>Token and load\<close>

lemma Token_nil: "token s = None \<Longrightarrow> Token s = (None, s)"
  by (simp add: Token_def)

lemma Token_alloc:
  "token s = Some a \<Longrightarrow>
     Token s = (Some (length (tokens s)), s\<lparr>tokens := tokens s @ [tokens s ! a]\<rparr>)"
  by (simp add: Token_def)

lemma load_tokens: "tokens s' = tokens s \<Longrightarrow> load s' p = load s p"
  by (cases p) (simp_all add: load_def)

lemma load_Token:
  "valid_token s \<Longrightarrow> load (snd (Token s)) (fst (Token s)) = load s (token s)"
  by (cases "token s") (simp_all add: Token_nil Token_alloc load_def valid_token_def nth_append)

subsection \<open>RefreshToken\<close>

lemma RefreshToken_error:
  "fetcher (tokens s) (token s) = ((x, Some err), h) \<Longrightarrow>
     RefreshToken fetcher s =
       (Some err, s\<lparr>fetched := fetched s @ [load s (token s)], tokens := h\<rparr>)"
  by (simp add: RefreshToken_def Let_def)

lemma RefreshToken_assigns:
  "fetcher (tokens s) (token s) = ((p, None), h) \<Longrightarrow>
     RefreshToken fetcher s =
       (None, s\<lparr>fetched := fetched s @ [load s (token s)], tokens := h, token := p\<rparr>)"
  by (simp add: RefreshToken_def Let_def)

lemma RefreshToken_fetched:
  "fetched (snd (RefreshToken fetcher s)) = fetched s @ [load s (token s)]"
  by (simp add: RefreshToken_def Let_def split: prod.splits option.splits)

subsection \<open>cloneRequest\<close>

lemma update_fresh_key:
  "k \<notin> fst ` set al \<Longrightarrow> AList.update k v al = al @ [(k, v)]"
  by (induction al) auto

text \<open>Assigning the entries of a map with distinct keys to an empty map rebuilds it.\<close>

lemma fold_update_distinct:
  "distinct (map fst (acc @ es)) \<Longrightarrow>
     fold (\<lambda>(k, v) al. AList.update k v al) es acc = acc @ es"
proof (induction es arbitrary: acc)
  case Nil
  then show ?case by simp
next
  case (Cons e es)
  obtain k v where e: "e = (k, v)" by (cases e)
  from Cons.prems e have fresh: "k \<notin> fst ` set acc" by auto
  from Cons.prems e have "distinct (map fst ((acc @ [(k, v)]) @ es))" by auto
  then have "fold (\<lambda>(k, v) al. AList.update k v al) es (acc @ [(k, v)]) = (acc @ [(k, v)]) @ es"
    by (rule Cons.IH)
  with fresh e show ?case by (simp add: update_fresh_key)
qed

text \<open>The loop of \<open>cloneRequest\<close> writes to the map at \<open>m\<close> and to nothing else.\<close>

lemma fold_map_assign:
  "fold (\<lambda>(k, v) w. map_assign w m k v) es s =
     s\<lparr>headers := (headers s)[m := fold (\<lambda>(k, v) al. AList.update k v al) es (headers s ! m)]\<rparr>"
proof (induction es arbitrary: s)
  case Nil
  show ?case by simp
next
  case (Cons e es)
  obtain k v where e: "e = (k, v)" by (cases e)
  have "fold (\<lambda>(k, v) w. map_assign w m k v) (e # es) s =
          fold (\<lambda>(k, v) w. map_assign w m k v) es (map_assign s m k v)"
    by (simp add: e)
  also have "\<dots> = (map_assign s m k v)\<lparr>headers := (headers (map_assign s m k v))
      [m := fold (\<lambda>(k, v) al. AList.update k v al) es (headers (map_assign s m k v) ! m)]\<rparr>"
    by (rule Cons.IH)
  also have "\<dots> = s\<lparr>headers := (headers s)
      [m := fold (\<lambda>(k, v) al. AList.update k v al) (e # es) (headers s ! m)]\<rparr>"
    by (cases "m < length (headers s)") (simp_all add: map_assign_def e list_update_beyond)
  finally show ?case .
qed

text \<open>The clone of a well-formed request, in closed form.\<close>

lemma cloneRequest_valid:
  assumes "valid_request s a"
  shows "cloneRequest s (Some a) =
     Inr (length (requests s),
          s\<lparr>requests := requests s @ [(requests s ! a)\<lparr>Header := Some (length (headers s))\<rparr>],
            headers := headers s @
              [case Header (requests s ! a) of None \<Rightarrow> [] | Some h \<Rightarrow> headers s ! h]\<rparr>)"
proof (cases "Header (requests s ! a)")
  case None
  with assms show ?thesis
    by (simp add: cloneRequest_def valid_request_def Let_def nth_append)
next
  case (Some h)
  with assms have h: "h < length (headers s)" and d: "distinct (map fst (headers s ! h))"
    and a: "a < length (requests s)"
    by (simp_all add: valid_request_def)
  from d have "fold (\<lambda>(k, v) al. AList.update k v al) (headers s ! h) [] = headers s ! h"
    using fold_update_distinct [of "[]" "headers s ! h"] by simp
  with Some h a show ?thesis
    by (simp add: cloneRequest_def Let_def nth_append fold_map_assign)
qed

text \<open>What \<open>cloneRequest\<close> and \<open>Header.Set\<close> leave alone.\<close>

lemma cloneRequest_frame:
  "cloneRequest s r = Inr (r2, s') \<Longrightarrow>
     token s' = token s \<and> tokens s' = tokens s \<and> fetched s' = fetched s \<and>
     sent s' = sent s \<and> arrays s' = arrays s"
  by (cases r) (auto simp: cloneRequest_def Let_def fold_map_assign)

lemma Header_Set_frame:
  "Header_Set s h k v = Inr s' \<Longrightarrow>
     token s' = token s \<and> tokens s' = tokens s \<and> fetched s' = fetched s \<and> sent s' = sent s"
  by (cases h) (auto simp: Header_Set_def Let_def map_assign_def)

subsection \<open>The second half of RoundTrip\<close>

lemma authorize_and_send_frame:
  "token (snd (authorize_and_send D s tp req)) = token s \<and>
   tokens (snd (authorize_and_send D s tp req)) = tokens s \<and>
   fetched (snd (authorize_and_send D s tp req)) = fetched s"
proof (cases "cloneRequest s req")
  case (Inl p)
  then show ?thesis by (simp add: authorize_and_send_def)
next
  case (Inr c)
  obtain r2 s1 where c: "c = (r2, s1)" by (cases c)
  note f1 = cloneRequest_frame [OF Inr [unfolded c]]
  show ?thesis
  proof (cases "load s1 tp")
    case None
    with Inr c f1 show ?thesis by (simp add: authorize_and_send_def)
  next
    case (Some tok)
    show ?thesis
    proof (cases "Header_Set s1 (Header (requests s1 ! r2)) ''Authorization''
        ((if TokenType tok = [] then defaultTokenType else TokenType tok) @ '' '' @ AccessToken tok)")
      case (Inl p)
      with Inr c f1 Some show ?thesis by (simp add: authorize_and_send_def Let_def)
    next
      case (Inr s2)
      note f2 = Header_Set_frame [OF Inr]
      from \<open>cloneRequest s req = Inr c\<close> c f1 f2 Some Inr show ?thesis
        by (simp add: authorize_and_send_def Let_def)
    qed
  qed
qed

lemma authorize_and_send_valid:
  assumes "valid_request s a" and "load s tokenp = Some tok"
  shows "authorize_and_send D s tokenp (Some a) =
     (let s2 = s\<lparr>requests := requests s @ [(requests s ! a)\<lparr>Header := Some (length (headers s))\<rparr>],
                 arrays := arrays s @
                   [[(if TokenType tok = [] then defaultTokenType else TokenType tok) @ '' '' @
                     AccessToken tok]],
                 headers := headers s @
                   [AList.update ''Authorization''
                      \<lparr>array = Some (length (arrays s)), offset = 0, len = 1, cap = 1\<rparr>
                      (case Header (requests s ! a) of None \<Rightarrow> [] | Some h \<Rightarrow> headers s ! h)]\<rparr>
      in (Inr (D s2 (length (requests s))), s2\<lparr>sent := sent s @ [length (requests s)]\<rparr>))"
proof -
  let ?s1 = "s\<lparr>requests := requests s @ [(requests s ! a)\<lparr>Header := Some (length (headers s))\<rparr>],
            headers := headers s @
              [case Header (requests s ! a) of None \<Rightarrow> [] | Some h \<Rightarrow> headers s ! h]\<rparr>"
  have c: "cloneRequest s (Some a) = Inr (length (requests s), ?s1)"
    by (rule cloneRequest_valid [OF assms(1)])
  have l: "load ?s1 tokenp = Some tok"
    using assms(2) load_tokens [of ?s1 s tokenp] by simp
  show ?thesis
    unfolding authorize_and_send_def c
    apply (simp only: sum.case prod.case l option.case)
    apply (simp only: Let_def Header_Set_def)
    apply (simp add: map_assign_def)
    done
qed

lemma authorize_and_send_nil_token:
  assumes "valid_request s a" and "load s tokenp = None"
  shows "authorize_and_send D s tokenp (Some a) =
     (Inl NilDereference,
      s\<lparr>requests := requests s @ [(requests s ! a)\<lparr>Header := Some (length (headers s))\<rparr>],
        headers := headers s @
          [case Header (requests s ! a) of None \<Rightarrow> [] | Some h \<Rightarrow> headers s ! h]\<rparr>)"
proof -
  let ?s1 = "s\<lparr>requests := requests s @ [(requests s ! a)\<lparr>Header := Some (length (headers s))\<rparr>],
            headers := headers s @
              [case Header (requests s ! a) of None \<Rightarrow> [] | Some h \<Rightarrow> headers s ! h]\<rparr>"
  have c: "cloneRequest s (Some a) = Inr (length (requests s), ?s1)"
    by (rule cloneRequest_valid [OF assms(1)])
  have l: "load ?s1 tokenp = None"
    using assms(2) load_tokens [of ?s1 s tokenp] by simp
  show ?thesis
    unfolding authorize_and_send_def c
    by (simp only: sum.case prod.case l option.case)
qed

lemma authorize_and_send_panics:
  "load s tokenp = None \<Longrightarrow> fst (authorize_and_send D s tokenp req) = Inl NilDereference"
proof (cases "cloneRequest s req")
  case (Inl p)
  then have "p = NilDereference"
    by (cases req) (simp_all add: cloneRequest_def Let_def)
  with Inl show ?thesis by (simp add: authorize_and_send_def)
next
  case (Inr c)
  assume n: "load s tokenp = None"
  obtain r2 s1 where c: "c = (r2, s1)" by (cases c)
  from cloneRequest_frame [OF Inr [unfolded c]] have "tokens s1 = tokens s" by simp
  then have "load s1 tokenp = None" using n load_tokens [of s1 s tokenp] by simp
  with Inr c show ?thesis by (simp add: authorize_and_send_def)
qed

text \<open>The header that the sent clone carries.\<close>

lemma authorize_and_send_header:
  assumes "valid_request s a" and "load s tokenp = Some tok"
  shows "sent (snd (authorize_and_send D s tokenp (Some a))) = sent s @ [length (requests s)] \<and>
    header_values (snd (authorize_and_send D s tokenp (Some a))) (length (requests s))
      ''Authorization'' =
      Some [(if TokenType tok = [] then ''Bearer'' else TokenType tok) @ '' '' @ AccessToken tok] \<and>
    fst (authorize_and_send D s tokenp (Some a)) =
      Inr (D ((snd (authorize_and_send D s tokenp (Some a)))\<lparr>sent := sent s\<rparr>)
             (length (requests s)))"
  by (simp add: authorize_and_send_valid [OF assms] Let_def header_values_def header_slice_def
      elems_def update_conv' defaultTokenType_def)

subsection \<open>The two ways through RoundTrip\<close>

lemma Token_heap:
  "requests (snd (Token s)) = requests s \<and> headers (snd (Token s)) = headers s \<and>
   arrays (snd (Token s)) = arrays s \<and> sent (snd (Token s)) = sent s \<and>
   fetched (snd (Token s)) = fetched s \<and> token (snd (Token s)) = token s"
  by (cases "token s") (simp_all add: Token_def)

lemma valid_request_heap:
  "requests s' = requests s \<Longrightarrow> headers s' = headers s \<Longrightarrow> arrays s' = arrays s \<Longrightarrow>
     valid_request s' r = valid_request s r"
  by (simp add: valid_request_def cong: option.case_cong)

lemma load_Token_stored:
  "valid_token s \<Longrightarrow> load (snd (Token s)) (token s) = load s (token s)"
  by (cases "token s") (simp_all add: Token_def load_def valid_token_def nth_append)

lemma RoundTrip_fresh:
  assumes "valid_token s" and "load s (token s) = Some t" and "Expired now (Some t) = Inr False"
  shows "RoundTrip fetcher D now s req =
           authorize_and_send D (snd (Token s)) (fst (Token s)) req"
proof -
  from assms(2) obtain a where a: "token s = Some a" by (auto simp: load_def split: option.splits)
  have "load (snd (Token s)) (fst (Token s)) = Some t"
    using load_Token [OF assms(1)] assms(2) by simp
  with a assms(3) show ?thesis
    by (simp add: RoundTrip_def Token_alloc split: prod.splits)
qed

lemma RoundTrip_stale:
  assumes "valid_token s"
    and "load s (token s) = None \<or> Expired now (load s (token s)) = Inr True"
  shows "RoundTrip fetcher D now s req =
           (case RefreshToken fetcher (snd (Token s)) of
              (Some err, s2) \<Rightarrow> (Inr (None, Some err), s2)
            | (None, s2) \<Rightarrow> authorize_and_send D (snd (Token s2)) (fst (Token s2)) req)"
proof (cases "token s")
  case None
  then show ?thesis by (simp add: RoundTrip_def Token_nil split: prod.splits option.splits)
next
  case (Some a)
  with assms(1) have "load s (token s) \<noteq> None" by (simp add: load_def valid_token_def)
  with assms(2) have "Expired now (load s (token s)) = Inr True" by simp
  then have "Expired now (load (snd (Token s)) (fst (Token s))) = Inr True"
    using load_Token [OF assms(1)] by simp
  with Some show ?thesis
    by (simp add: RoundTrip_def Token_alloc split: prod.splits option.splits)
qed

subsection \<open>The frame of RoundTrip\<close>

lemma RefreshToken_heap:
  "requests (snd (RefreshToken fetcher s)) = requests s \<and>
   headers (snd (RefreshToken fetcher s)) = headers s \<and>
   arrays (snd (RefreshToken fetcher s)) = arrays s \<and>
   sent (snd (RefreshToken fetcher s)) = sent s"
  by (simp add: RefreshToken_def Let_def split: prod.splits option.splits)

lemma grows_heap:
  "requests s1 = requests s \<Longrightarrow> headers s1 = headers s \<Longrightarrow> arrays s1 = arrays s \<Longrightarrow>
     grows s1 s' = grows s s'"
  by (simp add: grows_def)

lemma authorize_and_send_grows:
  assumes "valid_request s a"
  shows "grows s (snd (authorize_and_send D s tp (Some a))) \<and>
    (sent (snd (authorize_and_send D s tp (Some a))) = sent s \<or>
     sent (snd (authorize_and_send D s tp (Some a))) = sent s @ [length (requests s)])"
proof (cases "load s tp")
  case None
  show ?thesis
    by (simp add: authorize_and_send_nil_token [OF assms None] grows_def)
next
  case (Some tok)
  show ?thesis
    by (simp add: authorize_and_send_valid [OF assms Some] grows_def Let_def)
qed

text \<open>
  Every run of \<open>RoundTrip\<close> either stops before the clone, with the requests, maps
  and arrays as they were, or is a run of its second half from such a store.
\<close>

lemma RoundTrip_shape:
  "\<exists>s3. requests s3 = requests s \<and> headers s3 = headers s \<and> arrays s3 = arrays s \<and>
      sent s3 = sent s \<and>
      (snd (RoundTrip fetcher D now s req) = s3 \<or>
       (\<exists>tp. RoundTrip fetcher D now s req = authorize_and_send D s3 tp req))"
proof -
  obtain token0 s1 where t0: "Token s = (token0, s1)" by (cases "Token s")
  have h1: "requests s1 = requests s \<and> headers s1 = headers s \<and> arrays s1 = arrays s \<and>
      sent s1 = sent s"
    using Token_heap [of s] t0 by simp
  obtain e s2 where r: "RefreshToken fetcher s1 = (e, s2)" by (cases "RefreshToken fetcher s1")
  have h2: "requests s2 = requests s \<and> headers s2 = headers s \<and> arrays s2 = arrays s \<and>
      sent s2 = sent s"
    using RefreshToken_heap [of fetcher s1] r h1 by simp
  obtain token1 s3 where t1: "Token s2 = (token1, s3)" by (cases "Token s2")
  have h3: "requests s3 = requests s \<and> headers s3 = headers s \<and> arrays s3 = arrays s \<and>
      sent s3 = sent s"
    using Token_heap [of s2] t1 h2 by simp
  show ?thesis
  proof (cases "if token0 = None then Inr True else Expired now (load s1 token0)")
    case (Inl p)
    then have "snd (RoundTrip fetcher D now s req) = s1"
      by (simp add: RoundTrip_def t0)
    with h1 show ?thesis by blast
  next
    case (Inr stale)
    show ?thesis
    proof (cases stale)
      case False
      with Inr have "RoundTrip fetcher D now s req = authorize_and_send D s1 token0 req"
        by (simp add: RoundTrip_def t0)
      with h1 show ?thesis by blast
    next
      case True
      show ?thesis
      proof (cases e)
        case (Some err)
        with Inr True have "snd (RoundTrip fetcher D now s req) = s2"
          by (simp add: RoundTrip_def t0 r)
        with h2 show ?thesis by blast
      next
        case None
        with Inr True have "RoundTrip fetcher D now s req = authorize_and_send D s3 token1 req"
          by (simp add: RoundTrip_def t0 r t1)
        with h3 show ?thesis by blast
      qed
    qed
  qed
qed

lemma RoundTrip_grows:
  assumes "valid_request s r"
  shows "grows s (snd (RoundTrip fetcher D now s (Some r))) \<and>
    (sent (snd (RoundTrip fetcher D now s (Some r))) = sent s \<or>
     sent (snd (RoundTrip fetcher D now s (Some r))) = sent s @ [length (requests s)])"
proof -
  obtain s3 where h: "requests s3 = requests s" "headers s3 = headers s" "arrays s3 = arrays s"
      "sent s3 = sent s"
    and c: "snd (RoundTrip fetcher D now s (Some r)) = s3 \<or>
       (\<exists>tp. RoundTrip fetcher D now s (Some r) = authorize_and_send D s3 tp (Some r))"
    using RoundTrip_shape [of s fetcher D now "Some r"] by blast
  from c show ?thesis
  proof
    assume "snd (RoundTrip fetcher D now s (Some r)) = s3"
    with h show ?thesis by (simp add: grows_def)
  next
    assume "\<exists>tp. RoundTrip fetcher D now s (Some r) = authorize_and_send D s3 tp (Some r)"
    then obtain tp where e: "RoundTrip fetcher D now s (Some r) =
        authorize_and_send D s3 tp (Some r)" ..
    have v: "valid_request s3 r" using assms valid_request_heap [OF h(1-3), of r] by simp
    show ?thesis
      using authorize_and_send_grows [OF v, of D tp] h grows_heap [OF h(1-3)]
      by (simp add: e)
  qed
qed

text \<open>What a caller reads in a well-formed request does not change when the store grows.\<close>

lemma grows_observed:
  assumes "grows s s'" and "valid_request s r"
  shows "requests s' ! r = requests s ! r \<and> header_slice s' r k = header_slice s r k \<and>
    header_values s' r k = header_values s r k"
proof -
  from assms(1) obtain rq hs ar where g: "requests s' = requests s @ rq"
      "headers s' = headers s @ hs" "arrays s' = arrays s @ ar"
    by (auto simp: grows_def prefix_def)
  from assms(2) have r: "r < length (requests s)" by (simp add: valid_request_def)
  then have q: "requests s' ! r = requests s ! r" by (simp add: g nth_append)
  show ?thesis
  proof (cases "Header (requests s ! r)")
    case None
    with q show ?thesis by (simp add: header_values_def header_slice_def)
  next
    case (Some m)
    with assms(2) have m: "m < length (headers s)"
      and a: "list_all (\<lambda>(k, sl). case array sl of None \<Rightarrow> True
                | Some a \<Rightarrow> a < length (arrays s)) (headers s ! m)"
      by (simp_all add: valid_request_def)
    from m have hm: "headers s' ! m = headers s ! m" by (simp add: g nth_append)
    have sl: "header_slice s' r k = header_slice s r k"
      using q Some hm by (simp add: header_slice_def)
    have "map_option (elems s') (header_slice s r k) = map_option (elems s) (header_slice s r k)"
    proof (cases "header_slice s r k")
      case None
      then show ?thesis by simp
    next
      case (Some x)
      then have "(k, x) \<in> set (headers s ! m)"
        using \<open>Header (requests s ! r) = Some m\<close> by (simp add: header_slice_def map_of_SomeD)
      with a have "case array x of None \<Rightarrow> True | Some a \<Rightarrow> a < length (arrays s)"
        by (auto simp: list_all_iff)
      then have "elems s' x = elems s x"
        by (cases "array x") (simp_all add: elems_def g nth_append)
      with Some show ?thesis by simp
    qed
    with q sl show ?thesis by (simp add: header_values_def)
  qed
qed

subsection \<open>Runs of RoundTrip that reach the second half\<close>

lemma RoundTrip_fresh_run:
  assumes "valid_token s" and "valid_request s r"
    and "load s (token s) = Some t" and "Expired now (Some t) = Inr False"
  shows "\<exists>s1 p. RoundTrip fetcher D now s (Some r) = authorize_and_send D s1 p (Some r) \<and>
    valid_request s1 r \<and> load s1 p = Some t"
proof -
  let ?s1 = "snd (Token s)" and ?p = "fst (Token s)"
  have "valid_request ?s1 r"
    using assms(2) valid_request_heap [of ?s1 s r] by (simp add: Token_heap)
  moreover have "load ?s1 ?p = Some t"
    using load_Token [OF assms(1)] assms(3) by simp
  moreover have "RoundTrip fetcher D now s (Some r) = authorize_and_send D ?s1 ?p (Some r)"
    by (rule RoundTrip_fresh [OF assms(1,3,4)])
  ultimately show ?thesis by blast
qed

lemma RoundTrip_refresh_run:
  assumes "valid_token s" and "valid_request s r"
    and "load s (token s) = None \<or> Expired now (load s (token s)) = Inr True"
    and "fetcher (tokens (snd (Token s))) (token s) = ((Some p, None), h)"
    and "p < length h"
  shows "\<exists>s3 q. RoundTrip fetcher D now s (Some r) = authorize_and_send D s3 q (Some r) \<and>
    valid_request s3 r \<and> load s3 q = Some (h ! p) \<and> token s3 = Some p \<and>
    load s3 (token s3) = Some (h ! p) \<and> sent s3 = sent s \<and>
    fetched s3 = fetched s @ [load s (token s)] \<and> requests s3 = requests s"
proof -
  let ?s1 = "snd (Token s)"
  let ?s2 = "?s1\<lparr>fetched := fetched ?s1 @ [load ?s1 (token ?s1)], tokens := h,
                 token := Some p\<rparr>"
  let ?s3 = "snd (Token ?s2)" and ?q = "fst (Token ?s2)"
  have t: "token ?s1 = token s" by (simp add: Token_heap)
  have l1: "load ?s1 (token ?s1) = load s (token s)"
    using load_Token_stored [OF assms(1)] t by simp
  have r: "RefreshToken fetcher ?s1 = (None, ?s2)"
    using RefreshToken_assigns [of fetcher ?s1 "Some p" h] assms(4) t by simp
  have e: "RoundTrip fetcher D now s (Some r) = authorize_and_send D ?s3 ?q (Some r)"
    by (simp add: RoundTrip_stale [OF assms(1,3)] r)
  have v2: "valid_token ?s2" using assms(5) by (simp add: valid_token_def)
  have l2: "load ?s2 (token ?s2) = Some (h ! p)" using assms(5) by (simp add: load_def)
  have l3: "load ?s3 ?q = Some (h ! p)"
    using load_Token [OF v2] l2 by simp
  have l4: "load ?s3 (token ?s3) = Some (h ! p)"
    using load_Token_stored [OF v2] l2 by (simp add: Token_heap)
  have h3: "requests ?s3 = requests s \<and> headers ?s3 = headers s \<and> arrays ?s3 = arrays s \<and>
      sent ?s3 = sent s \<and> fetched ?s3 = fetched s @ [load s (token s)] \<and> token ?s3 = Some p"
    using l1 by (simp add: Token_heap)
  then have v: "valid_request ?s3 r"
    using assms(2) valid_request_heap [of ?s3 s r] by simp
  from e v l3 l4 h3 show ?thesis by blast
qed

lemma RoundTrip_nil_run:
  assumes "valid_token s"
    and "load s (token s) = None \<or> Expired now (load s (token s)) = Inr True"
    and "fetcher (tokens (snd (Token s))) (token s) = ((None, None), h)"
  shows "fst (RoundTrip fetcher D now s req) = Inl NilDereference"
proof -
  let ?s1 = "snd (Token s)"
  let ?s2 = "?s1\<lparr>fetched := fetched ?s1 @ [load ?s1 (token ?s1)], tokens := h, token := None\<rparr>"
  have t: "token ?s1 = token s" by (simp add: Token_heap)
  have r: "RefreshToken fetcher ?s1 = (None, ?s2)"
    using RefreshToken_assigns [of fetcher ?s1 None h] assms(3) t by simp
  have k: "Token ?s2 = (None, ?s2)" by (simp add: Token_nil)
  have e: "RoundTrip fetcher D now s req = authorize_and_send D ?s2 None req"
    by (simp add: RoundTrip_stale [OF assms(1,2)] r k)
  show ?thesis
    by (simp add: e authorize_and_send_panics load_def)
qed

text \<open>A run that refreshes calls the fetcher once, with the stored token.\<close>

lemma RoundTrip_stale_fetched:
  assumes "valid_token s"
    and "load s (token s) = None \<or> Expired now (load s (token s)) = Inr True"
  shows "fetched (snd (RoundTrip fetcher D now s req)) = fetched s @ [load s (token s)]"
proof -
  let ?s1 = "snd (Token s)"
  obtain e s2 where r: "RefreshToken fetcher ?s1 = (e, s2)" by (cases "RefreshToken fetcher ?s1")
  have "load ?s1 (token ?s1) = load s (token s)"
    using load_Token_stored [OF assms(1)] by (simp add: Token_heap)
  then have f: "fetched s2 = fetched s @ [load s (token s)]"
    using RefreshToken_fetched [of fetcher ?s1] r by (simp add: Token_heap)
  show ?thesis
  proof (cases e)
    case None
    with r f show ?thesis
      by (simp add: RoundTrip_stale [OF assms] authorize_and_send_frame Token_heap)
  next
    case (Some err)
    with r f show ?thesis
      by (simp add: RoundTrip_stale [OF assms])
  qed
qed

text \<open>A refresh that fails: nothing is assigned and nothing is sent.\<close>

lemma RoundTrip_error_run:
  assumes "valid_token s"
    and "load s (token s) = None \<or> Expired now (load s (token s)) = Inr True"
    and "fetcher (tokens (snd (Token s))) (token s) = ((x, Some E), h)"
  shows "RoundTrip fetcher D now s req =
    (Inr (None, Some E),
     (snd (Token s))\<lparr>fetched := fetched s @ [load s (token s)], tokens := h\<rparr>)"
proof -
  let ?s1 = "snd (Token s)"
  have t: "token ?s1 = token s" by (simp add: Token_heap)
  have l1: "load ?s1 (token ?s1) = load s (token s)"
    using load_Token_stored [OF assms(1)] t by simp
  have "RefreshToken fetcher ?s1 =
      (Some E, ?s1\<lparr>fetched := fetched ?s1 @ [load ?s1 (token ?s1)], tokens := h\<rparr>)"
    using RefreshToken_error [of fetcher ?s1 x E h] assms(3) t by simp
  then show ?thesis
    using l1 by (simp add: RoundTrip_stale [OF assms(1,2)] Token_heap)
qed

section \<open>The claims\<close>

subsection \<open>Expired\<close>

text \<open>
  C2, as stated: \<open>Expired\<close> of a nil token returns true. It does not: the first
  thing \<open>Expired\<close> does is read \<open>t.AccessToken\<close>.
\<close>

theorem Expired_nil_counterexample: "Expired 0 None \<noteq> Inr True"
  by simp

text \<open>
  C2, amended: \<open>Expired\<close> of a nil token panics with a nil dereference, whatever the
  time. The nil token is the caller's to catch: \<open>RoundTrip\<close> tests \<open>token == nil\<close>
  before it calls \<open>Expired\<close>, so with no token stored it goes on to call the fetcher,
  handing it nil.
\<close>

theorem Expired_nil_panics:
  "Expired now None = Inl NilDereference \<and>
   (token s = None \<longrightarrow>
      fetched (snd (RoundTrip fetcher DefaultTransport now s req)) = fetched s @ [None])"
proof
  show "Expired now None = Inl NilDereference" by simp
  show "token s = None \<longrightarrow>
      fetched (snd (RoundTrip fetcher DefaultTransport now s req)) = fetched s @ [None]"
  proof
    assume n: "token s = None"
    then have v: "valid_token s" and l: "load s (token s) = None"
      by (simp_all add: valid_token_def load_def)
    show "fetched (snd (RoundTrip fetcher DefaultTransport now s req)) = fetched s @ [None]"
      using RoundTrip_stale_fetched [OF v, of now fetcher DefaultTransport req] l by simp
  qed
qed

theorem Expired_nil_panics_witness:
  "token (store0\<lparr>token := None\<rparr>) = None \<and>
   Expired 100 None = Inl NilDereference \<and>
   fetched (snd (RoundTrip (\<lambda>h p. ((None, Some ''denied''), h))
     (\<lambda>s r. (Some ''response'', None)) 100 (store0\<lparr>token := None\<rparr>) (Some 0))) = [None]"
  using Expired_nil_panics [of 100 "store0\<lparr>token := None\<rparr>" "\<lambda>h p. ((None, Some ''denied''), h)"
      "\<lambda>s r. (Some ''response'', None)" "Some 0"]
  by (simp add: store0_def)

text \<open>
  C4: for a non-nil token \<open>T\<close>, \<open>Expired\<close> is true when the access token is empty,
  whatever the expiry; with a non-empty access token it is false when no expiry is
  set (the expiry is the zero time); and when an expiry is set it is true exactly
  when the expiry is before the current time, so false when the expiry is in the
  future.
\<close>

theorem Expired_cases:
  "(AccessToken T = [] \<longrightarrow> Expired now (Some T) = Inr True) \<and>
   (AccessToken T \<noteq> [] \<and> IsZero (Expiry T) \<longrightarrow> Expired now (Some T) = Inr False) \<and>
   (AccessToken T \<noteq> [] \<and> \<not> IsZero (Expiry T) \<longrightarrow>
      Expired now (Some T) = Inr (Expiry T < now)) \<and>
   (AccessToken T \<noteq> [] \<and> \<not> IsZero (Expiry T) \<and> now < Expiry T \<longrightarrow>
      Expired now (Some T) = Inr False)"
  by (simp add: Before_def)

theorem Expired_cases_witness:
  "Expired 100 (Some \<lparr>AccessToken = [], TokenType = [], RefreshToken = [], Expiry = 500\<rparr>) =
     Inr True \<and>
   IsZero 0 \<and>
   Expired 100 (Some \<lparr>AccessToken = ''abc'', TokenType = [], RefreshToken = [], Expiry = 0\<rparr>) =
     Inr False \<and>
   \<not> IsZero 50 \<and>
   Expired 100 (Some \<lparr>AccessToken = ''abc'', TokenType = [], RefreshToken = [], Expiry = 50\<rparr>) =
     Inr True \<and>
   \<not> IsZero 500 \<and> (100::int) < 500 \<and>
   Expired 100 (Some \<lparr>AccessToken = ''abc'', TokenType = [], RefreshToken = [], Expiry = 500\<rparr>) =
     Inr False"
  using
    Expired_cases [of "\<lparr>AccessToken = [], TokenType = [], RefreshToken = [], Expiry = 500\<rparr>" 100]
    Expired_cases [of "\<lparr>AccessToken = ''abc'', TokenType = [], RefreshToken = [], Expiry = 0\<rparr>" 100]
    Expired_cases [of "\<lparr>AccessToken = ''abc'', TokenType = [], RefreshToken = [], Expiry = 50\<rparr>" 100]
    Expired_cases [of "\<lparr>AccessToken = ''abc'', TokenType = [], RefreshToken = [], Expiry = 500\<rparr>" 100]
  by (simp add: IsZero_def)

subsection \<open>Token\<close>

text \<open>
  C9: \<open>Token\<close> returns nil when no token is stored. Otherwise it returns a pointer,
  different from the stored one, to a token with the fields of the stored token;
  and whatever value \<open>v\<close> the caller then writes through that pointer, the transport
  still stores its own pointer, the stored token is what it was, and the next
  \<open>Token\<close> call returns a copy of it again.
\<close>

theorem Token_returns_copy:
  "(token s = None \<longrightarrow> Token s = (None, s)) \<and>
   (token s = Some a \<and> a < length (tokens s) \<longrightarrow>
      fst (Token s) \<noteq> None \<and> fst (Token s) \<noteq> token s \<and>
      load (snd (Token s)) (fst (Token s)) = Some (tokens s ! a) \<and>
      token (token_store (snd (Token s)) (fst (Token s)) v) = token s \<and>
      load (token_store (snd (Token s)) (fst (Token s)) v) (token s) = Some (tokens s ! a) \<and>
      load (snd (Token (token_store (snd (Token s)) (fst (Token s)) v)))
           (fst (Token (token_store (snd (Token s)) (fst (Token s)) v))) = Some (tokens s ! a))"
proof (intro conjI impI)
  assume "token s = None"
  then show "Token s = (None, s)" by (rule Token_nil)
next
  assume h: "token s = Some a \<and> a < length (tokens s)"
  then show "fst (Token s) \<noteq> None" "fst (Token s) \<noteq> token s"
    "load (snd (Token s)) (fst (Token s)) = Some (tokens s ! a)"
    "token (token_store (snd (Token s)) (fst (Token s)) v) = token s"
    "load (token_store (snd (Token s)) (fst (Token s)) v) (token s) = Some (tokens s ! a)"
    "load (snd (Token (token_store (snd (Token s)) (fst (Token s)) v)))
           (fst (Token (token_store (snd (Token s)) (fst (Token s)) v))) = Some (tokens s ! a)"
    by (simp_all add: Token_alloc load_def token_store_def nth_append)
qed

theorem Token_returns_copy_witness:
  "token (store0\<lparr>token := None\<rparr>) = None \<and>
   Token (store0\<lparr>token := None\<rparr>) = (None, store0\<lparr>token := None\<rparr>) \<and>
   token store0 = Some 0 \<and> 0 < length (tokens store0) \<and>
   fst (Token store0) = Some 1 \<and>
   load (snd (Token store0)) (Some 1) = Some (tokens store0 ! 0) \<and>
   load (snd (Token (token_store (snd (Token store0)) (Some 1)
       \<lparr>AccessToken = ''forged'', TokenType = ''Basic'', RefreshToken = [], Expiry = 7\<rparr>)))
     (Some 2) =
     Some \<lparr>AccessToken = ''abc'', TokenType = [], RefreshToken = ''r1'', Expiry = 0\<rparr>"
  using Token_returns_copy [of "store0\<lparr>token := None\<rparr>" 0]
    Token_returns_copy [of store0 0
      "\<lparr>AccessToken = ''forged'', TokenType = ''Basic'', RefreshToken = [], Expiry = 7\<rparr>"]
  by (simp add: store0_def Token_def load_def token_store_def)

subsection \<open>RoundTrip\<close>

text \<open>
  C5, as stated: when the stored token is nil or expired and the fetcher returns an
  error, the stored token is left exactly as it was. \<open>RefreshToken\<close> hands the
  fetcher the stored pointer itself, so this fails for a fetcher that writes through
  it before it fails: with \<open>tamper\<close>, \<open>RoundTrip\<close> returns the error and the stored
  token then reads \<open>tampered\<close>.
\<close>

theorem RoundTrip_refresh_tampered:
  "valid_token store1 \<and>
   Expired 100 (load store1 (token store1)) = Inr True \<and>
   fst (tamper (tokens (snd (Token store1))) (token store1)) = (None, Some ''denied'') \<and>
   fst (RoundTrip tamper respond 100 store1 (Some 0)) = Inr (None, Some ''denied'') \<and>
   load store1 (token store1) =
     Some \<lparr>AccessToken = ''old'', TokenType = ''Basic'', RefreshToken = ''r1'', Expiry = 50\<rparr> \<and>
   load (snd (RoundTrip tamper respond 100 store1 (Some 0)))
     (token (snd (RoundTrip tamper respond 100 store1 (Some 0)))) =
     Some \<lparr>AccessToken = ''tampered'', TokenType = [], RefreshToken = [], Expiry = 0\<rparr>"
  by (simp add: RoundTrip_def Token_def RefreshToken_def tamper_def store1_def store0_def
      valid_token_def load_def IsZero_def Before_def Let_def)

text \<open>
  C5, amended: when the stored token is nil or expired and the fetcher returns an
  error \<open>E\<close>, \<open>RoundTrip\<close> returns \<open>(nil, E)\<close>, nothing is handed to
  \<open>DefaultTransport\<close>, the fetcher was called once (with the stored token), and the
  transport writes nothing: it stores the same pointer as before, and the token
  objects are exactly as the fetcher left them. So the stored token reads as it did
  before whenever the fetcher has not written to it.
\<close>

theorem RoundTrip_refresh_fails:
  assumes "valid_token s"
    and "load s (token s) = None \<or> Expired now (load s (token s)) = Inr True"
    and "fetcher (tokens (snd (Token s))) (token s) = ((x, Some E), h)"
  shows "fst (RoundTrip fetcher DefaultTransport now s req) = Inr (None, Some E) \<and>
    sent (snd (RoundTrip fetcher DefaultTransport now s req)) = sent s \<and>
    token (snd (RoundTrip fetcher DefaultTransport now s req)) = token s \<and>
    tokens (snd (RoundTrip fetcher DefaultTransport now s req)) = h \<and>
    fetched (snd (RoundTrip fetcher DefaultTransport now s req)) = fetched s @ [load s (token s)] \<and>
    (token s = Some a \<and> a < length h \<and> h ! a = tokens s ! a \<longrightarrow>
       load (snd (RoundTrip fetcher DefaultTransport now s req)) (token s) = load s (token s))"
proof -
  let ?s' = "(snd (Token s))\<lparr>fetched := fetched s @ [load s (token s)], tokens := h\<rparr>"
  have e: "RoundTrip fetcher DefaultTransport now s req = (Inr (None, Some E), ?s')"
    by (rule RoundTrip_error_run [of s now fetcher x E h DefaultTransport req, OF assms])
  have "load ?s' (token s) = load s (token s)"
    if "token s = Some a \<and> a < length h \<and> h ! a = tokens s ! a"
    using that assms(1) by (simp add: load_def valid_token_def)
  then show ?thesis by (simp add: e Token_heap)
qed

theorem RoundTrip_refresh_fails_witness:
  "valid_token store1 \<and> Expired 100 (load store1 (token store1)) = Inr True \<and>
   fst (RoundTrip (\<lambda>h p. ((None, Some ''denied''), h)) (\<lambda>s r. (Some ''response'', None)) 100
     store1 (Some 0)) = Inr (None, Some ''denied'') \<and>
   sent (snd (RoundTrip (\<lambda>h p. ((None, Some ''denied''), h)) (\<lambda>s r. (Some ''response'', None))
     100 store1 (Some 0))) = [] \<and>
   token (snd (RoundTrip (\<lambda>h p. ((None, Some ''denied''), h)) (\<lambda>s r. (Some ''response'', None))
     100 store1 (Some 0))) = Some 0 \<and>
   load (snd (RoundTrip (\<lambda>h p. ((None, Some ''denied''), h)) (\<lambda>s r. (Some ''response'', None))
     100 store1 (Some 0))) (Some 0) =
     Some \<lparr>AccessToken = ''old'', TokenType = ''Basic'', RefreshToken = ''r1'', Expiry = 50\<rparr>"
proof -
  have v: "valid_token store1"
    and x: "load store1 (token store1) = None \<or>
      Expired 100 (load store1 (token store1)) = Inr True"
    and t: "token store1 = Some 0" "sent store1 = []"
    and l: "load store1 (token store1) =
      Some \<lparr>AccessToken = ''old'', TokenType = ''Basic'', RefreshToken = ''r1'', Expiry = 50\<rparr>"
    by (simp_all add: store1_def store0_def valid_token_def load_def IsZero_def Before_def)
  have f: "(\<lambda>h p. ((None, Some ''denied''), h)) (tokens (snd (Token store1))) (token store1) =
      ((None, Some ''denied''), tokens (snd (Token store1)))" by simp
  have k: "token store1 = Some 0 \<and> 0 < length (tokens (snd (Token store1))) \<and>
      tokens (snd (Token store1)) ! 0 = tokens store1 ! 0"
    by (simp add: store1_def store0_def Token_def)
  show ?thesis
    using v x t l k
      RoundTrip_refresh_fails [of store1 100 "\<lambda>h p. ((None, Some ''denied''), h)" None
        "''denied''" "tokens (snd (Token store1))" "\<lambda>s r. (Some ''response'', None)" "Some 0" 0,
        OF v x f]
    by simp
qed

text \<open>
  C6: when the stored token is not nil, has a non-empty access token and is not
  expired, \<open>RoundTrip\<close> makes no call to the fetcher, and the request it hands to
  \<open>DefaultTransport\<close> (a new struct) has the header \<open>Authorization\<close> with the one
  value \<open>Type AccessToken\<close>, where \<open>Type\<close> is the token's type, or \<open>Bearer\<close> when the
  token's type is empty. What \<open>DefaultTransport\<close> returns is returned.
\<close>

theorem RoundTrip_valid_token:
  assumes "valid_token s" and "valid_request s r"
    and "load s (token s) = Some t" and "AccessToken t \<noteq> []"
    and "Expired now (Some t) = Inr False"
  shows "fetched (snd (RoundTrip fetcher DefaultTransport now s (Some r))) = fetched s \<and>
    sent (snd (RoundTrip fetcher DefaultTransport now s (Some r))) =
      sent s @ [length (requests s)] \<and>
    header_values (snd (RoundTrip fetcher DefaultTransport now s (Some r))) (length (requests s))
      ''Authorization'' =
      Some [(if TokenType t = [] then ''Bearer'' else TokenType t) @ '' '' @ AccessToken t] \<and>
    fst (RoundTrip fetcher DefaultTransport now s (Some r)) =
      Inr (DefaultTransport
             ((snd (RoundTrip fetcher DefaultTransport now s (Some r)))\<lparr>sent := sent s\<rparr>)
             (length (requests s)))"
proof -
  let ?s1 = "snd (Token s)" and ?p = "fst (Token s)"
  have v: "valid_request ?s1 r"
    using assms(2) valid_request_heap [of ?s1 s r] by (simp add: Token_heap)
  have l: "load ?s1 ?p = Some t"
    using load_Token [OF assms(1)] assms(3) by simp
  have e: "RoundTrip fetcher DefaultTransport now s (Some r) =
      authorize_and_send DefaultTransport ?s1 ?p (Some r)"
    by (rule RoundTrip_fresh [OF assms(1,3,5)])
  show ?thesis
    using authorize_and_send_header [OF v l, of DefaultTransport]
      authorize_and_send_frame [of DefaultTransport ?s1 ?p "Some r"]
    by (simp add: e Token_heap)
qed

theorem RoundTrip_valid_token_witness:
  "valid_token store0 \<and> valid_request store0 0 \<and>
   load store0 (token store0) =
     Some \<lparr>AccessToken = ''abc'', TokenType = [], RefreshToken = ''r1'', Expiry = 0\<rparr> \<and>
   Expired 100 (load store0 (token store0)) = Inr False \<and>
   fetched (snd (RoundTrip (\<lambda>h p. ((None, Some ''denied''), h)) (\<lambda>s r. (Some ''response'', None)) 100
     store0 (Some 0))) = [] \<and>
   sent (snd (RoundTrip (\<lambda>h p. ((None, Some ''denied''), h)) (\<lambda>s r. (Some ''response'', None)) 100
     store0 (Some 0))) = [1] \<and>
   header_values (snd (RoundTrip (\<lambda>h p. ((None, Some ''denied''), h))
     (\<lambda>s r. (Some ''response'', None)) 100 store0 (Some 0))) 1 ''Authorization'' =
     Some [''Bearer abc''] \<and>
   fst (RoundTrip (\<lambda>h p. ((None, Some ''denied''), h)) (\<lambda>s r. (Some ''response'', None)) 100 store0
     (Some 0)) = Inr (Some ''response'', None)"
  using RoundTrip_valid_token [of store0 0
      "\<lparr>AccessToken = ''abc'', TokenType = [], RefreshToken = ''r1'', Expiry = 0\<rparr>" 100
      "\<lambda>h p. ((None, Some ''denied''), h)" "\<lambda>s r. (Some ''response'', None)"]
  by (simp add: store0_def valid_token_def valid_request_def load_def IsZero_def Before_def)

text \<open>
  C7: when the stored token is nil or expired and the fetcher returns no error and
  a pointer to a token \<open>T2\<close>, \<open>RoundTrip\<close> calls the fetcher once (with the stored
  token), the transport then stores the returned pointer and so \<open>T2\<close>, and the
  request handed to \<open>DefaultTransport\<close> has the header \<open>Authorization\<close> built from
  \<open>T2\<close>. Nothing is asked of \<open>T2\<close>: it may be expired itself. The fetcher may have
  written to other tokens as well.
\<close>

theorem RoundTrip_refreshes:
  assumes "valid_token s" and "valid_request s r"
    and "load s (token s) = None \<or> Expired now (load s (token s)) = Inr True"
    and "fetcher (tokens (snd (Token s))) (token s) = ((Some p, None), h)"
    and "p < length h" and "h ! p = T2"
  shows "fetched (snd (RoundTrip fetcher DefaultTransport now s (Some r))) =
      fetched s @ [load s (token s)] \<and>
    load (snd (RoundTrip fetcher DefaultTransport now s (Some r)))
      (token (snd (RoundTrip fetcher DefaultTransport now s (Some r)))) = Some T2 \<and>
    sent (snd (RoundTrip fetcher DefaultTransport now s (Some r))) =
      sent s @ [length (requests s)] \<and>
    header_values (snd (RoundTrip fetcher DefaultTransport now s (Some r))) (length (requests s))
      ''Authorization'' =
      Some [(if TokenType T2 = [] then ''Bearer'' else TokenType T2) @ '' '' @ AccessToken T2] \<and>
    fst (RoundTrip fetcher DefaultTransport now s (Some r)) =
      Inr (DefaultTransport
             ((snd (RoundTrip fetcher DefaultTransport now s (Some r)))\<lparr>sent := sent s\<rparr>)
             (length (requests s))) \<and>
    token (snd (RoundTrip fetcher DefaultTransport now s (Some r))) = Some p"
proof -
  from RoundTrip_refresh_run [of s r now fetcher p h DefaultTransport, OF assms(1-5)]
  obtain s3 q where e: "RoundTrip fetcher DefaultTransport now s (Some r) =
      authorize_and_send DefaultTransport s3 q (Some r)"
    and v: "valid_request s3 r" and l3: "load s3 q = Some T2"
    and t3: "token s3 = Some p" and l4: "load s3 (token s3) = Some T2"
    and h: "sent s3 = sent s" "fetched s3 = fetched s @ [load s (token s)]"
      "requests s3 = requests s"
    using assms(6) by auto
  note f = authorize_and_send_frame [of DefaultTransport s3 q "Some r"]
  have l5: "load (snd (authorize_and_send DefaultTransport s3 q (Some r)))
      (token (snd (authorize_and_send DefaultTransport s3 q (Some r)))) = Some T2"
    using f l4 load_tokens [of "snd (authorize_and_send DefaultTransport s3 q (Some r))" s3
        "token s3"] by simp
  show ?thesis
    using authorize_and_send_header [OF v l3, of DefaultTransport] f l5 h t3
    by (simp add: e)
qed

theorem RoundTrip_refreshes_witness:
  "valid_token store1 \<and> valid_request store1 0 \<and>
   Expired 100 (load store1 (token store1)) = Inr True \<and>
   Expired 100
     (Some \<lparr>AccessToken = ''new'', TokenType = ''MAC'', RefreshToken = [], Expiry = 60\<rparr>) =
     Inr True \<and>
   fetched (snd (RoundTrip renew (\<lambda>s r. (Some ''response'', None)) 100 store1 (Some 0))) =
     [Some \<lparr>AccessToken = ''old'', TokenType = ''Basic'', RefreshToken = ''r1'', Expiry = 50\<rparr>] \<and>
   load (snd (RoundTrip renew (\<lambda>s r. (Some ''response'', None)) 100 store1 (Some 0)))
     (token (snd (RoundTrip renew (\<lambda>s r. (Some ''response'', None)) 100 store1 (Some 0)))) =
     Some \<lparr>AccessToken = ''new'', TokenType = ''MAC'', RefreshToken = [], Expiry = 60\<rparr> \<and>
   sent (snd (RoundTrip renew (\<lambda>s r. (Some ''response'', None)) 100 store1 (Some 0))) = [1] \<and>
   header_values (snd (RoundTrip renew (\<lambda>s r. (Some ''response'', None)) 100 store1 (Some 0)))
     1 ''Authorization'' = Some [''MAC new'']"
proof -
  have v: "valid_token store1" and w: "valid_request store1 0"
    and x: "load store1 (token store1) = None \<or>
      Expired 100 (load store1 (token store1)) = Inr True"
    and x2: "Expired 100 (Some \<lparr>AccessToken = ''new'', TokenType = ''MAC'', RefreshToken = [],
      Expiry = 60\<rparr>) = Inr True"
    and l: "load store1 (token store1) =
      Some \<lparr>AccessToken = ''old'', TokenType = ''Basic'', RefreshToken = ''r1'', Expiry = 50\<rparr>"
    and z: "sent store1 = []" "fetched store1 = []" "length (requests store1) = 1"
    by (simp_all add: store1_def store0_def valid_token_def valid_request_def load_def IsZero_def
        Before_def)
  have f: "renew (tokens (snd (Token store1))) (token store1) =
      ((Some 2, None), tokens (snd (Token store1)) @
        [\<lparr>AccessToken = ''new'', TokenType = ''MAC'', RefreshToken = [], Expiry = 60\<rparr>])"
    and n: "2 < length (tokens (snd (Token store1)) @
        [\<lparr>AccessToken = ''new'', TokenType = ''MAC'', RefreshToken = [], Expiry = 60\<rparr>])"
    and g: "(tokens (snd (Token store1)) @
        [\<lparr>AccessToken = ''new'', TokenType = ''MAC'', RefreshToken = [], Expiry = 60\<rparr>]) ! 2 =
        \<lparr>AccessToken = ''new'', TokenType = ''MAC'', RefreshToken = [], Expiry = 60\<rparr>"
    by (simp_all add: renew_def store1_def store0_def Token_def)
  show ?thesis
    using v w x x2 l z
      RoundTrip_refreshes [of store1 0 100 renew 2 _ _ "\<lambda>s r. (Some ''response'', None)",
        OF v w x f n g]
    by (clarsimp simp del: One_nat_def)
qed

text \<open>
  C8: for a well-formed request \<open>r\<close> given to \<open>RoundTrip\<close>, whatever the fetcher and
  the underlying transport return and whether or not the call panics, afterwards the
  struct at \<open>r\<close> is the same, and for every key \<open>k\<close> (\<open>Authorization\<close> among them)
  \<open>r.Header[k]\<close> is the same slice with the same values as before, absent if it
  was absent. The request that was sent, if one was, is the newly allocated clone,
  not \<open>r\<close>.
\<close>

theorem RoundTrip_leaves_request:
  assumes "valid_request s r"
  shows "requests (snd (RoundTrip fetcher DefaultTransport now s (Some r))) ! r = requests s ! r \<and>
    header_slice (snd (RoundTrip fetcher DefaultTransport now s (Some r))) r k =
      header_slice s r k \<and>
    header_values (snd (RoundTrip fetcher DefaultTransport now s (Some r))) r k =
      header_values s r k \<and>
    r < length (requests s) \<and>
    (sent (snd (RoundTrip fetcher DefaultTransport now s (Some r))) = sent s \<or>
     sent (snd (RoundTrip fetcher DefaultTransport now s (Some r))) =
       sent s @ [length (requests s)])"
proof -
  have g: "grows s (snd (RoundTrip fetcher DefaultTransport now s (Some r)))"
    using RoundTrip_grows [OF assms, of fetcher DefaultTransport now] by simp
  from assms have "r < length (requests s)" by (simp add: valid_request_def)
  then show ?thesis
    using grows_observed [OF g assms, of k] RoundTrip_grows [OF assms, of fetcher DefaultTransport now]
    by simp
qed

theorem RoundTrip_leaves_request_witness:
  "valid_request store1 0 \<and>
   header_values store1 0 ''Authorization'' = None \<and>
   header_values (snd (RoundTrip renew (\<lambda>s r. (Some ''response'', None)) 100 store1 (Some 0)))
     0 ''Authorization'' = None \<and>
   header_values (snd (RoundTrip renew (\<lambda>s r. (Some ''response'', None)) 100 store1 (Some 0)))
     0 ''Accept'' = Some [''text/html'']"
proof -
  have v: "valid_request store1 0"
    by (simp add: store1_def store0_def valid_request_def)
  have a: "header_values store1 0 ''Authorization'' = None"
    and b: "header_values store1 0 ''Accept'' = Some [''text/html'']"
    by (simp_all add: store1_def store0_def header_values_def header_slice_def elems_def)
  show ?thesis
    using v a b
      RoundTrip_leaves_request [OF v, of renew "\<lambda>s r. (Some ''response'', None)" 100
        "''Authorization''"]
      RoundTrip_leaves_request [OF v, of renew "\<lambda>s r. (Some ''response'', None)" 100
        "''Accept''"]
    by simp
qed

text \<open>
  C10: after a refresh \<open>RoundTrip\<close> reads the token again and dereferences it with
  no nil check. When the stored token is nil or expired and the fetcher returns a
  nil token with a nil error, \<open>RoundTrip\<close> panics with a nil dereference, whatever
  the request. When the fetcher never returns a nil token with a nil error (and,
  as every Go function, returns only nil or pointers to allocated tokens), a
  \<open>RoundTrip\<close> on a well-formed store and request does not panic.
\<close>

theorem RoundTrip_nil_dereference:
  "(valid_token s \<and>
    (load s (token s) = None \<or> Expired now (load s (token s)) = Inr True) \<and>
    fst (fetcher (tokens (snd (Token s))) (token s)) = (None, None) \<longrightarrow>
      fst (RoundTrip fetcher DefaultTransport now s req) = Inl NilDereference) \<and>
   (valid_token s \<and> valid_request s r \<and> (\<forall>h p. fst (fetcher h p) \<noteq> (None, None)) \<and>
    (\<forall>h p a. fst (fst (fetcher h p)) = Some a \<longrightarrow> a < length (snd (fetcher h p))) \<longrightarrow>
      (\<forall>p. fst (RoundTrip fetcher DefaultTransport now s (Some r)) \<noteq> Inl p))"
proof (intro conjI impI)
  assume a: "valid_token s \<and>
    (load s (token s) = None \<or> Expired now (load s (token s)) = Inr True) \<and>
    fst (fetcher (tokens (snd (Token s))) (token s)) = (None, None)"
  then obtain h where "fetcher (tokens (snd (Token s))) (token s) = ((None, None), h)"
    by (cases "fetcher (tokens (snd (Token s))) (token s)") auto
  with a show "fst (RoundTrip fetcher DefaultTransport now s req) = Inl NilDereference"
    using RoundTrip_nil_run [of s now fetcher h DefaultTransport req] by blast
next
  assume h: "valid_token s \<and> valid_request s r \<and> (\<forall>h p. fst (fetcher h p) \<noteq> (None, None)) \<and>
    (\<forall>h p a. fst (fst (fetcher h p)) = Some a \<longrightarrow> a < length (snd (fetcher h p)))"
  then have vt: "valid_token s" and vr: "valid_request s r"
    and nn: "fst (fetcher (tokens (snd (Token s))) (token s)) \<noteq> (None, None)"
    and al: "\<And>a. fst (fst (fetcher (tokens (snd (Token s))) (token s))) = Some a \<Longrightarrow>
        a < length (snd (fetcher (tokens (snd (Token s))) (token s)))"
    by simp_all
  have ok: "\<exists>v. fst (RoundTrip fetcher DefaultTransport now s (Some r)) = Inr v"
  proof (cases "load s (token s) = None \<or> Expired now (load s (token s)) = Inr True")
    case True
    obtain x err hp where f: "fetcher (tokens (snd (Token s))) (token s) = ((x, err), hp)"
      by (cases "fetcher (tokens (snd (Token s))) (token s)") auto
    show ?thesis
    proof (cases err)
      case (Some E)
      with f show ?thesis
        by (simp add: RoundTrip_error_run [of s now fetcher x E hp DefaultTransport "Some r",
              OF vt True])
    next
      case None
      with f nn obtain p where f2: "fetcher (tokens (snd (Token s))) (token s) =
          ((Some p, None), hp)"
        by (cases x) auto
      with al [of p] have pl: "p < length hp" by simp
      from RoundTrip_refresh_run [of s r now fetcher p hp DefaultTransport, OF vt vr True f2 pl]
      obtain s3 q where "RoundTrip fetcher DefaultTransport now s (Some r) =
          authorize_and_send DefaultTransport s3 q (Some r)"
        and "valid_request s3 r" and "load s3 q = Some (hp ! p)" by blast
      then show ?thesis
        using authorize_and_send_header [of s3 r q "hp ! p" DefaultTransport] by simp
    qed
  next
    case False
    then obtain t where t: "load s (token s) = Some t" by auto
    with False have "Expired now (Some t) \<noteq> Inr True" by simp
    then have ex: "Expired now (Some t) = Inr False" by (simp split: if_splits)
    from RoundTrip_fresh_run [of s r t now fetcher DefaultTransport, OF vt vr t ex]
    obtain s1 p where "RoundTrip fetcher DefaultTransport now s (Some r) =
        authorize_and_send DefaultTransport s1 p (Some r)"
      and "valid_request s1 r" and "load s1 p = Some t" by blast
    then show ?thesis
      using authorize_and_send_header [of s1 r p t DefaultTransport] by simp
  qed
  then show "\<forall>p. fst (RoundTrip fetcher DefaultTransport now s (Some r)) \<noteq> Inl p" by auto
qed

theorem RoundTrip_nil_dereference_witness:
  "valid_token store1 \<and> valid_request store1 0 \<and>
   Expired 100 (load store1 (token store1)) = Inr True \<and>
   fst (RoundTrip (\<lambda>h p. ((None, None :: string option), h)) (\<lambda>s r. (Some ''response'', None))
     100 store1 (Some 0)) = Inl NilDereference \<and>
   (\<forall>h p. fst (renew h p) \<noteq> (None, None)) \<and>
   fst (RoundTrip renew (\<lambda>s r. (Some ''response'', None)) 100 store1 (Some 0)) \<noteq>
     Inl NilDereference"
proof -
  have v: "valid_token store1" and w: "valid_request store1 0"
    and x: "Expired 100 (load store1 (token store1)) = Inr True"
    by (simp_all add: store1_def store0_def valid_token_def valid_request_def load_def IsZero_def
        Before_def)
  have n: "\<forall>h p. fst (renew h p) \<noteq> (None, None)"
    and a: "\<forall>h p a. fst (fst (renew h p)) = Some a \<longrightarrow> a < length (snd (renew h p))"
    by (simp_all add: renew_def)
  show ?thesis
    using v w x n a
      RoundTrip_nil_dereference [of store1 100 "\<lambda>h p. ((None, None :: string option), h)"
        "\<lambda>s r. (Some ''response'', None)" "Some 0" 0]
      RoundTrip_nil_dereference [of store1 100 renew "\<lambda>s r. (Some ''response'', None)" "Some 0" 0]
    by simp
qed

subsection \<open>cloneRequest\<close>

text \<open>
  C1, as stated: the clone's header value lists are duplicates that share no
  storage with the original's. They are not duplicated: for the request of
  \<open>store0\<close>, the slice under \<open>Accept\<close> in the clone shares its backing array with
  the slice under \<open>Accept\<close> in the original, and a write through the clone's slice
  changes the value read from the original request.
\<close>

theorem cloneRequest_shares_storage:
  "(case cloneRequest store0 (Some 0) of
      Inl p \<Rightarrow> False
    | Inr (r2, s') \<Rightarrow>
        (case (header_slice store0 0 ''Accept'', header_slice s' r2 ''Accept'') of
           (Some sl, Some sl') \<Rightarrow>
             shares_storage sl sl' \<and>
             header_values s' 0 ''Accept'' = Some [''text/html''] \<and>
             header_values (slice_store s' sl' 0 ''image/png'') 0 ''Accept'' =
               Some [''image/png'']
         | _ \<Rightarrow> False))"
  by (simp add: cloneRequest_def store0_def Let_def map_assign_def header_slice_def
      header_values_def elems_def slice_store_def shares_storage_def cells_def)

text \<open>
  C1, amended: for a well-formed request \<open>r\<close>, \<open>cloneRequest\<close> returns a newly
  allocated struct with the fields of \<open>r\<close>, except that its \<open>Header\<close> is a newly
  allocated map, different from the map of \<open>r\<close>. The new map binds every key of
  \<open>r.Header\<close> to the same slice header as in \<open>r\<close>: the value lists are shared, no
  backing array is allocated or changed. Everything that existed before is
  unchanged, and assigning any key of the clone's map, as \<open>Header.Set\<close> does, leaves
  every entry of \<open>r.Header\<close> as it was.
\<close>

theorem cloneRequest_shallow:
  assumes "valid_request s r"
  shows "\<exists>s'. cloneRequest s (Some r) = Inr (length (requests s), s') \<and>
    others (requests s' ! length (requests s)) = others (requests s ! r) \<and>
    Header (requests s' ! length (requests s)) = Some (length (headers s)) \<and>
    Header (requests s ! r) \<noteq> Some (length (headers s)) \<and>
    (\<forall>k. header_slice s' (length (requests s)) k = header_slice s r k) \<and>
    arrays s' = arrays s \<and>
    grows s s' \<and>
    (\<forall>k v k'. header_slice (map_assign s' (length (headers s)) k v) r k' = header_slice s r k')"
proof -
  let ?s' = "s\<lparr>requests := requests s @ [(requests s ! r)\<lparr>Header := Some (length (headers s))\<rparr>],
            headers := headers s @
              [case Header (requests s ! r) of None \<Rightarrow> [] | Some h \<Rightarrow> headers s ! h]\<rparr>"
  from assms have r: "r < length (requests s)" by (simp add: valid_request_def)
  have m: "Header (requests s ! r) \<noteq> Some (length (headers s))"
    using assms by (auto simp: valid_request_def)
  have sl: "header_slice ?s' (length (requests s)) k = header_slice s r k" for k
    by (cases "Header (requests s ! r)") (simp_all add: header_slice_def)
  have g: "grows s ?s'" by (simp add: grows_def)
  have a: "header_slice (map_assign ?s' (length (headers s)) k v) r k' = header_slice s r k'"
    for k v k'
  proof (cases "Header (requests s ! r)")
    case None
    with r show ?thesis by (simp add: header_slice_def map_assign_def nth_append)
  next
    case (Some h)
    with assms m have "h < length (headers s)" by (simp add: valid_request_def)
    with r Some show ?thesis by (simp add: header_slice_def map_assign_def nth_append)
  qed
  show ?thesis
    using cloneRequest_valid [OF assms] m sl g a by simp
qed

theorem cloneRequest_shallow_witness:
  "valid_request store0 0 \<and>
   (\<exists>s'. cloneRequest store0 (Some 0) = Inr (1, s') \<and>
      others (requests s' ! 1) = others (requests store0 ! 0) \<and>
      Header (requests s' ! 1) = Some 1 \<and>
      header_slice s' 1 ''Accept'' = Some \<lparr>array = Some 0, offset = 0, len = 1, cap = 1\<rparr> \<and>
      arrays s' = [[''text/html'']])"
proof -
  have v: "valid_request store0 0"
    by (simp add: store0_def valid_request_def)
  have l: "length (requests store0) = 1" "length (headers store0) = 1"
    "arrays store0 = [[''text/html'']]"
    "header_slice store0 0 ''Accept'' = Some \<lparr>array = Some 0, offset = 0, len = 1, cap = 1\<rparr>"
    by (simp_all add: store0_def header_slice_def)
  from cloneRequest_shallow [OF v] obtain s' where
    "cloneRequest store0 (Some 0) = Inr (length (requests store0), s')"
    "others (requests s' ! length (requests store0)) = others (requests store0 ! 0)"
    "Header (requests s' ! length (requests store0)) = Some (length (headers store0))"
    "\<forall>k. header_slice s' (length (requests store0)) k = header_slice store0 0 k"
    "arrays s' = arrays store0"
    by blast
  with v l show ?thesis by (simp del: One_nat_def) 
qed

end
